theory Spec2Isabelle
  imports Main "HOL-Library.Multiset"
begin

section \<open>Data model of the Google Vertex fine-tuning recipe\<close>

text \<open>
  The notebook \<^verbatim>\<open>google_vertex.ipynb\<close> converts rendered inferences into the
  Vertex wire format, splits them by episode and uploads the two splits.

  Python values that the code passes through without looking inside them (tool-call
  arguments, tool results) are values of \<open>pyval\<close>; \<^verbatim>\<open>isinstance(args, str)\<close> is the
  test for the constructor \<open>PStr\<close>. Floating-point values do not occur in the model.
\<close>

datatype pyval =
    PNone
  | PBool bool
  | PInt int
  | PStr string
  | PList "pyval list"
  | PDict "(string \<times> pyval) list"

text \<open>
  Content blocks: the five classes imported from \<^verbatim>\<open>tensorzero\<close>, and \<open>OtherBlock\<close>
  for an object that is an instance of none of them. \<open>ToolCall name raw_arguments\<close>,
  \<open>ToolResult name result\<close>.
\<close>

datatype block =
    Text string
  | RawText string
  | Thought string
  | ToolCall string pyval
  | ToolResult string pyval
  | OtherBlock

text \<open>The dictionaries \<^verbatim>\<open>{"text": ..}\<close>, \<^verbatim>\<open>{"functionCall": {"name": .., "args": ..}}\<close>
  and \<^verbatim>\<open>{"functionResponse": {"name": .., "response": ..}}\<close>.\<close>

datatype part =
    TextPart string
  | FunctionCall string pyval
  | FunctionResponse string pyval

text \<open>A rendered message \<^verbatim>\<open>{"role": .., "parts": ..}\<close>. \<^verbatim>\<open>merge_messages\<close> reads the
  parts with \<^verbatim>\<open>msg.get("parts", [])\<close>, so a dictionary without the key reads as
  \<open>parts = []\<close>.\<close>

record turn =
  role :: string
  parts :: "part list"

text \<open>An input message (\<^verbatim>\<open>msg.role\<close>, \<^verbatim>\<open>msg.content\<close>).\<close>

record message =
  m_role :: string
  m_content :: "block list"

text \<open>
  A rendered inference: \<^verbatim>\<open>inf.input.system\<close>, \<^verbatim>\<open>inf.input.messages\<close>, \<^verbatim>\<open>inf.output\<close>
  and \<^verbatim>\<open>inf.episode_id\<close>; \<open>episode_id = None\<close> is an object without the attribute
  (\<^verbatim>\<open>hasattr(inf, "episode_id")\<close> is false).
\<close>

record 'e inference =
  episode_id :: "'e option"
  system :: "string option"
  messages :: "message list"
  inf_output :: "block list"

text \<open>The dictionary \<^verbatim>\<open>result\<close> built by \<^verbatim>\<open>inference_to_google\<close>; the two optional
  keys are options.\<close>

record 'e payload =
  contents :: "turn list"
  systemInstruction :: "turn option"
  p_episode_id :: "'e option"

text \<open>
  The exceptions the converter and the split can raise, and the two warnings. A call that
  emits a warning and returns \<^verbatim>\<open>None\<close> is \<open>Skipped w\<close>; a raised exception is
  \<open>Raised e\<close>; a returned value is \<open>Returned x\<close>.
\<close>

datatype error = JSONDecodeError | KeyError

datatype warning =
    UnsupportedBlock string
  | UnsupportedOutputBlock

datatype 'a outcome =
    Raised error
  | Skipped warning
  | Returned 'a

section \<open>The converter\<close>

definition role_map :: "string \<rightharpoonup> string" where
  "role_map = [''user'' \<mapsto> ''user'', ''assistant'' \<mapsto> ''model'', ''system'' \<mapsto> ''system'']"

subsection \<open>\<^verbatim>\<open>merge_messages\<close>\<close>

text \<open>
  One iteration of the loop: \<open>merged\<close> is the list built so far. When the last merged
  turn has the role of \<open>msg\<close>, its parts are extended; otherwise a new turn is appended.
\<close>

definition merge_step :: "turn list \<Rightarrow> turn \<Rightarrow> turn list" where
  "merge_step merged msg =
     (if merged \<noteq> [] \<and> role (last merged) = role msg
      then butlast merged @ [(last merged)\<lparr>parts := parts (last merged) @ parts msg\<rparr>]
      else merged @ [\<lparr>role = role msg, parts = parts msg\<rparr>])"

definition merge_messages :: "turn list \<Rightarrow> turn list" where
  "merge_messages msgs = foldl merge_step [] msgs"

subsection \<open>\<^verbatim>\<open>render_chat_message\<close>\<close>

text \<open>
  \<^verbatim>\<open>json.loads\<close> belongs to the Python library, not to the notebook: it is the
  parameter \<open>loads\<close>, with \<open>None\<close> for a string it rejects (it raises
  \<^verbatim>\<open>json.JSONDecodeError\<close>).

  The body of the loop over the content blocks, in the order of the \<^verbatim>\<open>if\<close>/\<^verbatim>\<open>elif\<close>
  chain.
\<close>

fun render_block :: "(string \<Rightarrow> pyval option) \<Rightarrow> string \<Rightarrow> block \<Rightarrow> part outcome" where
  "render_block loads r (Text t) = Returned (TextPart t)"
| "render_block loads r (RawText v) = Returned (TextPart v)"
| "render_block loads r (Thought t) = Returned (TextPart (''<think>'' @ t @ ''</think>''))"
| "render_block loads r (ToolCall n args) =
     (if r = ''assistant''
      then (case args of
              PStr s \<Rightarrow> (case loads s of
                           None \<Rightarrow> Raised JSONDecodeError
                         | Some v \<Rightarrow> Returned (FunctionCall n v))
            | _ \<Rightarrow> Returned (FunctionCall n args))
      else Skipped (UnsupportedBlock r))"
| "render_block loads r (ToolResult n res) =
     (if r = ''user''
      then Returned (FunctionResponse n (PDict [(''result'', res)]))
      else Skipped (UnsupportedBlock r))"
| "render_block loads r OtherBlock = Skipped (UnsupportedBlock r)"

text \<open>The loop, with the list \<open>ps\<close> of the parts appended so far.\<close>

fun render_parts ::
  "(string \<Rightarrow> pyval option) \<Rightarrow> string \<Rightarrow> block list \<Rightarrow> part list \<Rightarrow> part list outcome" where
  "render_parts loads r [] ps = Returned ps"
| "render_parts loads r (blk # blks) ps =
     (case render_block loads r blk of
        Raised e \<Rightarrow> Raised e
      | Skipped w \<Rightarrow> Skipped w
      | Returned p \<Rightarrow> render_parts loads r blks (ps @ [p]))"

definition render_chat_message ::
  "(string \<Rightarrow> pyval option) \<Rightarrow> string \<Rightarrow> block list \<Rightarrow> turn outcome" where
  "render_chat_message loads r content_blocks =
     (case render_parts loads r content_blocks [] of
        Raised e \<Rightarrow> Raised e
      | Skipped w \<Rightarrow> Skipped w
      | Returned ps \<Rightarrow>
          (case role_map r of
             None \<Rightarrow> Raised KeyError
           | Some r' \<Rightarrow> Returned \<lparr>role = r', parts = ps\<rparr>))"

subsection \<open>\<^verbatim>\<open>inference_to_google\<close>\<close>

text \<open>The loop over the output blocks: no \<^verbatim>\<open>RawText\<close> and no \<^verbatim>\<open>ToolResult\<close> branch,
  and no test of a role.\<close>

fun render_output_block :: "(string \<Rightarrow> pyval option) \<Rightarrow> block \<Rightarrow> part outcome" where
  "render_output_block loads (Text t) = Returned (TextPart t)"
| "render_output_block loads (Thought t) = Returned (TextPart (''<think>'' @ t @ ''</think>''))"
| "render_output_block loads (ToolCall n args) =
     (case args of
        PStr s \<Rightarrow> (case loads s of
                     None \<Rightarrow> Raised JSONDecodeError
                   | Some v \<Rightarrow> Returned (FunctionCall n v))
      | _ \<Rightarrow> Returned (FunctionCall n args))"
| "render_output_block loads blk = Skipped UnsupportedOutputBlock"

fun out_parts :: "(string \<Rightarrow> pyval option) \<Rightarrow> block list \<Rightarrow> part list \<Rightarrow> part list outcome" where
  "out_parts loads [] ps = Returned ps"
| "out_parts loads (blk # blks) ps =
     (case render_output_block loads blk of
        Raised e \<Rightarrow> Raised e
      | Skipped w \<Rightarrow> Skipped w
      | Returned p \<Rightarrow> out_parts loads blks (ps @ [p]))"

text \<open>Step 2, the loop over the input messages, with the list \<open>acc\<close> of the messages
  rendered so far.\<close>

fun render_msgs ::
  "(string \<Rightarrow> pyval option) \<Rightarrow> message list \<Rightarrow> turn list \<Rightarrow> turn list outcome" where
  "render_msgs loads [] acc = Returned acc"
| "render_msgs loads (msg # msgs) acc =
     (case render_chat_message loads (m_role msg) (m_content msg) of
        Raised e \<Rightarrow> Raised e
      | Skipped w \<Rightarrow> Skipped w
      | Returned rendered \<Rightarrow> render_msgs loads msgs (acc @ [rendered]))"

text \<open>Steps 2 and 3: the value of the local variable \<^verbatim>\<open>rendered_msgs\<close> when
  \<^verbatim>\<open>merge_messages\<close> is called.\<close>

definition rendered_msgs ::
  "(string \<Rightarrow> pyval option) \<Rightarrow> 'e inference \<Rightarrow> turn list outcome" where
  "rendered_msgs loads infer =
     (case render_msgs loads (messages infer) [] of
        Raised e \<Rightarrow> Raised e
      | Skipped w \<Rightarrow> Skipped w
      | Returned rs \<Rightarrow>
          (case out_parts loads (inf_output infer) [] of
             Raised e \<Rightarrow> Raised e
           | Skipped w \<Rightarrow> Skipped w
           | Returned ops \<Rightarrow>
               (case role_map ''assistant'' of
                  None \<Rightarrow> Raised KeyError
                | Some r' \<Rightarrow> Returned (rs @ [\<lparr>role = r', parts = ops\<rparr>]))))"

text \<open>Step 1: \<^verbatim>\<open>if model_input.system:\<close> is false for \<^verbatim>\<open>None\<close> and for the empty
  string.\<close>

definition system_instruction :: "'e inference \<Rightarrow> turn option outcome" where
  "system_instruction infer =
     (case system infer of
        None \<Rightarrow> Returned None
      | Some s \<Rightarrow>
          (if s = [] then Returned None
           else (case role_map ''system'' of
                   None \<Rightarrow> Raised KeyError
                 | Some r' \<Rightarrow> Returned (Some \<lparr>role = r', parts = [TextPart s]\<rparr>))))"

definition inference_to_google ::
  "(string \<Rightarrow> pyval option) \<Rightarrow> 'e inference \<Rightarrow> 'e payload outcome" where
  "inference_to_google loads infer =
     (case system_instruction infer of
        Raised e \<Rightarrow> Raised e
      | Skipped w \<Rightarrow> Skipped w
      | Returned si \<Rightarrow>
          (case rendered_msgs loads infer of
             Raised e \<Rightarrow> Raised e
           | Skipped w \<Rightarrow> Skipped w
           | Returned rs \<Rightarrow>
               Returned \<lparr>contents = merge_messages rs,
                         systemInstruction = si,
                         p_episode_id = episode_id infer\<rparr>))"

text \<open>
  The loop of the cell over \<^verbatim>\<open>rendered_inferences\<close>: the payloads appended so far and
  the warnings emitted so far. An exception leaves the loop and the cell.
\<close>

fun google_payloads ::
  "(string \<Rightarrow> pyval option) \<Rightarrow> 'e inference list \<Rightarrow> 'e payload list \<times> warning list
     \<Rightarrow> error + ('e payload list \<times> warning list)" where
  "google_payloads loads [] acc = Inr acc"
| "google_payloads loads (infer # infs) (ps, ws) =
     (case inference_to_google loads infer of
        Raised e \<Rightarrow> Inl e
      | Skipped w \<Rightarrow> google_payloads loads infs (ps, ws @ [w])
      | Returned p \<Rightarrow> google_payloads loads infs (ps @ [p], ws))"

text \<open>
  An instance of the parameter \<open>loads\<close> for concrete inputs. It agrees with
  \<^verbatim>\<open>json.loads\<close> on the two strings it is applied to below: the object
  \<^verbatim>\<open>{"x": 1}\<close>, and \<^verbatim>\<open>{bad\<close>, which is not JSON.
\<close>

definition loads_example :: "string \<Rightarrow> pyval option" where
  \<open>loads_example s = (if s = ''{"x": 1}'' then Some (PDict [(''x'', PInt 1)]) else None)\<close>

section \<open>The split by episode\<close>

text \<open>
  \<open>df\<close> is the DataFrame built from \<^verbatim>\<open>google_payloads\<close>, one row for each payload.
  The column \<^verbatim>\<open>episode_id\<close> exists when some payload has the key (a DataFrame built
  from no payload has no column); a row whose payload lacks the key holds a missing value,
  \<open>None\<close> here, which \<^verbatim>\<open>unique\<close> and \<^verbatim>\<open>isin\<close> treat as one value.
\<close>

definition episode_id_column :: "'e payload list \<Rightarrow> error + 'e option list" where
  "episode_id_column df =
     (if list_all (\<lambda>p. p_episode_id p = None) df then Inl KeyError
      else Inr (map p_episode_id df))"

text \<open>\<^verbatim>\<open>Series.unique()\<close>: the distinct values in the order of their first appearance.\<close>

fun unique_from :: "'a list \<Rightarrow> 'a list \<Rightarrow> 'a list" where
  "unique_from seen [] = seen"
| "unique_from seen (x # xs) =
     (if x \<in> set seen then unique_from seen xs else unique_from (seen @ [x]) xs)"

definition unique :: "'a list \<Rightarrow> 'a list" where
  "unique xs = unique_from [] xs"

text \<open>The slices \<^verbatim>\<open>a[:k]\<close> and \<^verbatim>\<open>a[k:]\<close>: a negative \<open>k\<close> counts from the end, and
  an index beyond either end is clipped.\<close>

definition slice_index :: "int \<Rightarrow> nat \<Rightarrow> nat" where
  "slice_index k n = (if k < 0 then nat (int n + k) else min (nat k) n)"

definition slice_to :: "int \<Rightarrow> 'a list \<Rightarrow> 'a list" where
  "slice_to k xs = take (slice_index k (length xs)) xs"

definition slice_from :: "int \<Rightarrow> 'a list \<Rightarrow> 'a list" where
  "slice_from k xs = drop (slice_index k (length xs)) xs"

text \<open>
  The cell that builds \<^verbatim>\<open>train_df\<close> and \<^verbatim>\<open>val_df\<close>. \<open>shuffle\<close> is
  \<^verbatim>\<open>np.random.seed(42); np.random.shuffle(..)\<close>, a parameter. The index
  \<^verbatim>\<open>int(len(unique_episode_ids) * (1 - VAL_FRACTION))\<close> is computed on doubles, whose
  arithmetic is not modelled: \<open>split_index_of n\<close> stands for the value of
  \<^verbatim>\<open>int(n * (1 - VAL_FRACTION))\<close>, a parameter, and what is proved of the cell holds for
  every such function. The cell has no \<^verbatim>\<open>raise\<close> and no \<^verbatim>\<open>assert\<close>: the only
  exception is the \<^verbatim>\<open>KeyError\<close> of the column lookup. \<open>split_rows\<close> is the part of
  the cell after the index is computed.
\<close>

definition split_rows ::
  "int \<Rightarrow> 'e option list \<Rightarrow> 'e payload list \<Rightarrow> 'e payload list \<times> 'e payload list" where
  "split_rows split_index unique_episode_ids df =
     (let train_episode_ids = slice_to split_index unique_episode_ids;
          val_episode_ids = slice_from split_index unique_episode_ids;
          train_df = filter (\<lambda>p. p_episode_id p \<in> set train_episode_ids) df;
          val_df = filter (\<lambda>p. p_episode_id p \<in> set val_episode_ids) df
      in (train_df, val_df))"

definition train_val_split ::
  "('e option list \<Rightarrow> 'e option list) \<Rightarrow> (nat \<Rightarrow> int) \<Rightarrow> 'e payload list
     \<Rightarrow> error + ('e payload list \<times> 'e payload list)" where
  "train_val_split shuffle split_index_of df =
     (case episode_id_column df of
        Inl e \<Rightarrow> Inl e
      | Inr col \<Rightarrow>
          (let unique_episode_ids = shuffle (unique col);
               split_index = split_index_of (length unique_episode_ids)
           in Inr (split_rows split_index unique_episode_ids df)))"

text \<open>
  The index for \<^verbatim>\<open>VAL_FRACTION = 0.5\<close>: \<^verbatim>\<open>1 - 0.5\<close> is the double 0.5, the product
  \<^verbatim>\<open>n * 0.5\<close> is exact for every length below \<open>2 ^ 53\<close>, and \<^verbatim>\<open>int\<close> drops the
  half.
\<close>

definition split_index_half :: "nat \<Rightarrow> int" where
  "split_index_half n = int n div 2"

section \<open>The upload\<close>

text \<open>
  The storage client belongs to the Google library. Its three calls are the fields of a
  record of functions on a state \<open>'s\<close> of the remote store, each returning an exception
  \<open>'x\<close> or its result: \<^verbatim>\<open>bucket.exists()\<close>, \<^verbatim>\<open>gcp_client.create_bucket(..)\<close> and
  \<^verbatim>\<open>blob.upload_from_filename(.., if_generation_match=0)\<close> with the name of the blob
  and the text of the file.
\<close>

record ('s, 'x) storage_client =
  bucket_exists :: "'s \<Rightarrow> 'x + bool"
  create_bucket :: "'s \<Rightarrow> 'x + 's"
  upload_from_filename :: "string \<Rightarrow> string \<Rightarrow> 's \<Rightarrow> 'x + 's"

definition google_messages :: "'e payload \<Rightarrow> turn list \<times> turn option" where
  "google_messages p = (contents p, systemInstruction p)"

text \<open>
  \<^verbatim>\<open>upload_dataset_to_gcp\<close>: \<open>dump\<close> is \<^verbatim>\<open>json.dump\<close>. The function has no
  \<^verbatim>\<open>return\<close> statement, so the value of a call that raises nothing is \<^verbatim>\<open>None\<close>: the
  first component of the result, a \<open>string option\<close> for the annotation \<^verbatim>\<open>-> str\<close>.
\<close>

definition upload_dataset_to_gcp ::
  "('s, 'x) storage_client \<Rightarrow> (turn list \<times> turn option \<Rightarrow> string) \<Rightarrow> 'e payload list
     \<Rightarrow> string \<Rightarrow> 's \<Rightarrow> 'x + (string option \<times> 's)" where
  "upload_dataset_to_gcp gcp_client dump df dataset_name s =
     (let f = concat (map (\<lambda>p. dump (google_messages p) @ [CHR 0x0A]) df)
      in case bucket_exists gcp_client s of
           Inl e \<Rightarrow> Inl e
         | Inr ex \<Rightarrow>
             (case (if \<not> ex then create_bucket gcp_client s else Inr s) of
                Inl e \<Rightarrow> Inl e
              | Inr s1 \<Rightarrow>
                  (case upload_from_filename gcp_client dataset_name f s1 of
                     Inl e \<Rightarrow> Inl e
                   | Inr s2 \<Rightarrow> Inr (None, s2))))"

text \<open>
  A store in memory, as an instance of the client for concrete inputs: a flag for the
  bucket and the blobs by name. Generation 0 as the precondition of an upload means that
  the blob must not exist.
\<close>

datatype storage_error = PreconditionFailed | TransportError

record memory_store =
  has_bucket :: bool
  blobs :: "(string \<times> string) list"

definition memory_client :: "(memory_store, storage_error) storage_client" where
  "memory_client =
     \<lparr>bucket_exists = (\<lambda>s. Inr (has_bucket s)),
      create_bucket = (\<lambda>s. Inr (s\<lparr>has_bucket := True\<rparr>)),
      upload_from_filename = (\<lambda>name f s.
        if map_of (blobs s) name \<noteq> None then Inl PreconditionFailed
        else Inr (s\<lparr>blobs := blobs s @ [(name, f)]\<rparr>))\<rparr>"

text \<open>A client whose upload fails in transit.\<close>

definition failing_client :: "(memory_store, storage_error) storage_client" where
  "failing_client = memory_client\<lparr>upload_from_filename := (\<lambda>name f s. Inl TransportError)\<rparr>"

section \<open>\<^verbatim>\<open>merge_messages\<close> on a store of list objects\<close>

text \<open>
  \<^verbatim>\<open>merge_messages\<close> has two statements that mutate an object: \<^verbatim>\<open>merged.append(..)\<close>,
  on the list it has created itself, and \<^verbatim>\<open>merged[-1]["parts"].extend(parts)\<close>, on a
  list of parts. The lists of parts are therefore objects of a store, the address of a list
  being its index; the input list and its dictionaries are only read, and are values.

  An input dictionary holds its role and, when it has the key \<^verbatim>\<open>"parts"\<close>, the address of
  its list of parts. A merged dictionary holds its role and the address of its list.
\<close>

type_synonym addr = nat

type_synonym store = "part list list"

record msg_obj =
  o_role :: string
  o_parts :: "addr option"

record turn_obj =
  t_role :: string
  t_parts :: addr

text \<open>A new list object with the elements \<open>xs\<close>.\<close>

definition alloc :: "store \<Rightarrow> part list \<Rightarrow> addr \<times> store" where
  "alloc h xs = (length h, h @ [xs])"

text \<open>\<^verbatim>\<open>msg.get("parts", [])\<close>: the list of the dictionary, or a new empty list. The
  result \<open>None\<close>, here and below, is an address that is not in the store, which no
  Python state has.\<close>

definition get_parts :: "msg_obj \<Rightarrow> store \<Rightarrow> (addr \<times> store) option" where
  "get_parts msg h =
     (case o_parts msg of
        Some a \<Rightarrow> (if a < length h then Some (a, h) else None)
      | None \<Rightarrow> Some (alloc h []))"

text \<open>\<^verbatim>\<open>a.extend(b)\<close> writes the list at \<open>a\<close>.\<close>

definition extend :: "store \<Rightarrow> addr \<Rightarrow> addr \<Rightarrow> store option" where
  "extend h a b =
     (if a < length h \<and> b < length h then Some (h[a := h ! a @ h ! b]) else None)"

text \<open>\<^verbatim>\<open>list(a)\<close> is a new list object with the elements of \<open>a\<close>.\<close>

definition list_copy :: "store \<Rightarrow> addr \<Rightarrow> (addr \<times> store) option" where
  "list_copy h a = (if a < length h then Some (alloc h (h ! a)) else None)"

fun merge_loop ::
  "msg_obj list \<Rightarrow> turn_obj list \<Rightarrow> store \<Rightarrow> (turn_obj list \<times> store) option" where
  "merge_loop [] merged h = Some (merged, h)"
| "merge_loop (msg # msgs) merged h =
     (case get_parts msg h of
        None \<Rightarrow> None
      | Some (ps, h1) \<Rightarrow>
          (if merged \<noteq> [] \<and> t_role (last merged) = o_role msg
           then (case extend h1 (t_parts (last merged)) ps of
                   None \<Rightarrow> None
                 | Some h2 \<Rightarrow> merge_loop msgs merged h2)
           else (case list_copy h1 ps of
                   None \<Rightarrow> None
                 | Some (b, h2) \<Rightarrow>
                     merge_loop msgs (merged @ [\<lparr>t_role = o_role msg, t_parts = b\<rparr>]) h2)))"

definition merge_messages_store ::
  "msg_obj list \<Rightarrow> store \<Rightarrow> (turn_obj list \<times> store) option" where
  "merge_messages_store msgs h = merge_loop msgs [] h"

text \<open>What a dictionary denotes in a store.\<close>

definition read_msg :: "store \<Rightarrow> msg_obj \<Rightarrow> turn" where
  "read_msg h msg =
     \<lparr>role = o_role msg, parts = (case o_parts msg of None \<Rightarrow> [] | Some a \<Rightarrow> h ! a)\<rparr>"

definition read_turn :: "store \<Rightarrow> turn_obj \<Rightarrow> turn" where
  "read_turn h t = \<lparr>role = t_role t, parts = h ! t_parts t\<rparr>"

text \<open>Every address of the input is in the store.\<close>

definition wf_msg :: "store \<Rightarrow> msg_obj \<Rightarrow> bool" where
  "wf_msg h msg = (case o_parts msg of None \<Rightarrow> True | Some a \<Rightarrow> a < length h)"

definition wf_msgs :: "store \<Rightarrow> msg_obj list \<Rightarrow> bool" where
  "wf_msgs h msgs = list_all (wf_msg h) msgs"

text \<open>
  The invariant of the loop, for the store \<open>h0\<close> at the call: the store has only grown,
  the lists of \<open>h0\<close> are as they were, and the lists of the merged dictionaries are new
  objects, no two of them the same.
\<close>

definition fresh_lists :: "store \<Rightarrow> turn_obj list \<Rightarrow> store \<Rightarrow> bool" where
  "fresh_lists h0 merged h =
     (length h0 \<le> length h \<and> take (length h0) h = h0
      \<and> list_all (\<lambda>t. length h0 \<le> t_parts t \<and> t_parts t < length h) merged
      \<and> distinct (map t_parts merged))"


section \<open>Supported variants and example records\<close>

text \<open>
  The block variants that have a branch in \<^verbatim>\<open>render_chat_message\<close> for a role, and in
  the loop over the output; the blocks whose argument string, if they have one, is
  accepted by the decoder; and the roles that are keys of \<^verbatim>\<open>role_map\<close>.
\<close>

fun supported :: "string \<Rightarrow> block \<Rightarrow> bool" where
  "supported r (ToolCall n args) = (r = ''assistant'')"
| "supported r (ToolResult n res) = (r = ''user'')"
| "supported r OtherBlock = False"
| "supported r blk = True"

fun supported_output :: "block \<Rightarrow> bool" where
  "supported_output (Text t) = True"
| "supported_output (Thought t) = True"
| "supported_output (ToolCall n args) = True"
| "supported_output blk = False"

fun decodes :: "(string \<Rightarrow> pyval option) \<Rightarrow> block \<Rightarrow> bool" where
  "decodes loads (ToolCall n (PStr s)) = (loads s \<noteq> None)"
| "decodes loads blk = True"

definition known_role :: "string \<Rightarrow> bool" where
  "known_role r = (r = ''user'' \<or> r = ''assistant'' \<or> r = ''system'')"

definition supported_message :: "message \<Rightarrow> bool" where
  "supported_message m = (known_role (m_role m) \<and> list_all (supported (m_role m)) (m_content m))"

definition decodes_message :: "(string \<Rightarrow> pyval option) \<Rightarrow> message \<Rightarrow> bool" where
  "decodes_message loads m = list_all (decodes loads) (m_content m)"

definition supported_inference :: "'e inference \<Rightarrow> bool" where
  "supported_inference infer =
     (list_all supported_message (messages infer) \<and> list_all supported_output (inf_output infer))"

definition decodes_inference :: "(string \<Rightarrow> pyval option) \<Rightarrow> 'e inference \<Rightarrow> bool" where
  "decodes_inference loads infer =
     (list_all (decodes_message loads) (messages infer) \<and> list_all (decodes loads) (inf_output infer))"


definition has_unsupported :: "'e inference \<Rightarrow> bool" where
  "has_unsupported infer =
     (list_ex (\<lambda>m. list_ex (\<lambda>b. \<not> supported (m_role m) b) (m_content m)) (messages infer)
      \<or> list_ex (\<lambda>b. \<not> supported_output b) (inf_output infer))"

text \<open>
  The order of rendering decides what a record with an unsupported block does.
  \<open>blocks_supported m\<close>: every block of the message has a branch for its role.
  \<open>quiet_before\<close>: nothing raises before the first unsupported block is reached, that
  is, every message before the first message with an unsupported block has a known role and
  argument strings that decode, and the blocks before the first unsupported block of that
  message decode; when every message has supported blocks only, all of them are such and the
  output blocks before the first unsupported one decode.
\<close>

definition blocks_supported :: "message \<Rightarrow> bool" where
  "blocks_supported m = list_all (supported (m_role m)) (m_content m)"

definition quiet_before :: "(string \<Rightarrow> pyval option) \<Rightarrow> 'e inference \<Rightarrow> bool" where
  "quiet_before loads infer =
     (list_all (\<lambda>m. known_role (m_role m) \<and> decodes_message loads m)
        (takeWhile blocks_supported (messages infer))
      \<and> (case dropWhile blocks_supported (messages infer) of
            m # ms \<Rightarrow> list_all (decodes loads) (takeWhile (supported (m_role m)) (m_content m))
          | [] \<Rightarrow> list_all (decodes loads) (takeWhile supported_output (inf_output infer))))"


text \<open>
  The text blocks and the text of the part they are rendered to: the text itself, and for
  a thought the text between the two delimiters.
\<close>

fun textual :: "block \<Rightarrow> bool" where
  "textual (Text t) = True"
| "textual (RawText v) = True"
| "textual (Thought t) = True"
| "textual blk = False"

fun rendered_text :: "block \<Rightarrow> string" where
  "rendered_text (Text t) = t"
| "rendered_text (RawText v) = v"
| "rendered_text (Thought t) = ''<think>'' @ t @ ''</think>''"
| "rendered_text blk = []"


text \<open>Records for concrete evaluation.\<close>

definition bad_call :: "nat inference" where
  "bad_call = \<lparr>episode_id = Some 1, system = None,
     messages = [\<lparr>m_role = ''assistant'', m_content = [ToolCall ''f'' (PStr ''{bad'')]\<rparr>],
     inf_output = [Text ''ok'']\<rparr>"

definition hello :: "nat inference" where
  "hello = \<lparr>episode_id = Some 2, system = Some ''Be concise'',
     messages = [\<lparr>m_role = ''user'', m_content = [Text ''Hi'']\<rparr>],
     inf_output = [Text ''Hello'']\<rparr>"

definition bad_call_then_result :: "nat inference" where
  "bad_call_then_result = \<lparr>episode_id = Some 3, system = None,
     messages = [\<lparr>m_role = ''assistant'',
                  m_content = [ToolCall ''f'' (PStr ''{bad''), ToolResult ''f'' (PStr ''r'')]\<rparr>],
     inf_output = [Text ''ok'']\<rparr>"

definition result_on_assistant :: "nat inference" where
  "result_on_assistant = \<lparr>episode_id = Some 4, system = None,
     messages = [\<lparr>m_role = ''assistant'', m_content = [ToolResult ''f'' (PStr ''r'')]\<rparr>],
     inf_output = [Text ''ok'']\<rparr>"


definition tool_call_on_user :: "nat inference" where
  "tool_call_on_user = \<lparr>episode_id = Some 6, system = None,
     messages = [\<lparr>m_role = ''user'', m_content = [ToolCall ''f'' (PStr ''{bad'')]\<rparr>],
     inf_output = [Text ''ok'']\<rparr>"

definition unknown_role_then_result :: "nat inference" where
  "unknown_role_then_result = \<lparr>episode_id = Some 7, system = None,
     messages = [\<lparr>m_role = ''tool'', m_content = [Text ''x'']\<rparr>,
                 \<lparr>m_role = ''assistant'', m_content = [ToolResult ''f'' (PStr ''r'')]\<rparr>],
     inf_output = [Text ''ok'']\<rparr>"

definition tool_round_trip :: "nat inference" where
  \<open>tool_round_trip = \<lparr>episode_id = Some 5, system = Some ''Use the tool'',
     messages = [\<lparr>m_role = ''user'', m_content = [Text ''What is x?'']\<rparr>,
                 \<lparr>m_role = ''assistant'',
                  m_content = [Thought ''look it up'', ToolCall ''get'' (PStr ''{"x": 1}'')]\<rparr>,
                 \<lparr>m_role = ''user'', m_content = [ToolResult ''get'' (PStr ''one'')]\<rparr>],
     inf_output = [Text ''x is one'']\<rparr>\<close>


text \<open>A row of the DataFrame, and a store with a list of messages over it.\<close>

definition row :: "nat \<Rightarrow> string \<Rightarrow> nat payload" where
  "row e t = \<lparr>contents = [\<lparr>role = ''model'', parts = [TextPart t]\<rparr>],
              systemInstruction = None, p_episode_id = Some e\<rparr>"


definition example_store :: store where
  "example_store = [[TextPart ''A''], [TextPart ''B''], [TextPart ''C'']]"

definition example_msgs :: "msg_obj list" where
  "example_msgs =
     [\<lparr>o_role = ''model'', o_parts = Some 0\<rparr>, \<lparr>o_role = ''model'', o_parts = Some 1\<rparr>,
      \<lparr>o_role = ''user'', o_parts = Some 2\<rparr>, \<lparr>o_role = ''user'', o_parts = None\<rparr>,
      \<lparr>o_role = ''model'', o_parts = Some 0\<rparr>]"


section \<open>Properties of the merge\<close>

lemma merge_step_roles:
  "map role (merge_step acc y) =
     (if acc \<noteq> [] \<and> role (last acc) = role y then map role acc else map role acc @ [role y])"
  by (cases acc rule: rev_cases) (auto simp: merge_step_def)

lemma merge_step_parts:
  "concat (map parts (merge_step acc y)) = concat (map parts acc) @ parts y"
  by (cases acc rule: rev_cases) (auto simp: merge_step_def)

lemma merge_step_snoc:
  "acc = [] \<or> role (last acc) \<noteq> role y \<Longrightarrow> merge_step acc y = acc @ [y]"
  by (auto simp: merge_step_def)

lemma merge_step_distinct_adj:
  "distinct_adj (map role acc) \<Longrightarrow> distinct_adj (map role (merge_step acc y))"
  by (cases acc rule: rev_cases) (auto simp: merge_step_roles distinct_adj_append_iff)

lemma foldl_merge_distinct_adj:
  "distinct_adj (map role acc) \<Longrightarrow> distinct_adj (map role (foldl merge_step acc ys))"
  by (induction ys arbitrary: acc) (simp_all add: merge_step_distinct_adj)

lemma foldl_merge_fixed:
  "distinct_adj (map role (acc @ ys)) \<Longrightarrow> foldl merge_step acc ys = acc @ ys"
proof (induction ys arbitrary: acc)
  case Nil
  then show ?case by simp
next
  case (Cons y ys)
  from Cons.prems have "acc = [] \<or> role (last acc) \<noteq> role y"
    by (cases acc rule: rev_cases) (auto simp: distinct_adj_append_iff)
  then have "merge_step acc y = acc @ [y]" by (rule merge_step_snoc)
  moreover from Cons.prems have "distinct_adj (map role ((acc @ [y]) @ ys))" by simp
  ultimately show ?case using Cons.IH [of "acc @ [y]"] by simp
qed

lemma foldl_merge_parts:
  "concat (map parts (foldl merge_step acc ys)) = concat (map parts acc) @ concat (map parts ys)"
  by (induction ys arbitrary: acc) (simp_all add: merge_step_parts)

lemma remdups_adj_twice:
  "remdups_adj (xs @ x # x # zs) = remdups_adj (xs @ x # zs)"
proof -
  have "remdups_adj (xs @ x # x # zs) = remdups_adj (xs @ [x]) @ tl (remdups_adj (x # x # zs))"
    by (rule remdups_adj_append)
  also have "\<dots> = remdups_adj (xs @ [x]) @ tl (remdups_adj (x # zs))" by simp
  also have "\<dots> = remdups_adj (xs @ x # zs)" by (rule remdups_adj_append [symmetric])
  finally show ?thesis .
qed

lemma foldl_merge_roles:
  "distinct_adj (map role acc) \<Longrightarrow>
   map role (foldl merge_step acc ys) = remdups_adj (map role acc @ map role ys)"
proof (induction ys arbitrary: acc)
  case Nil
  then show ?case by (simp add: distinct_adj_altdef)
next
  case (Cons y ys)
  have d: "distinct_adj (map role (merge_step acc y))"
    using Cons.prems by (rule merge_step_distinct_adj)
  have "remdups_adj (map role (merge_step acc y) @ map role ys)
          = remdups_adj (map role acc @ role y # map role ys)"
  proof (cases "acc \<noteq> [] \<and> role (last acc) = role y")
    case True
    then obtain as a where acc: "acc = as @ [a]" and r: "role a = role y"
      by (cases acc rule: rev_cases) auto
    show ?thesis
      using remdups_adj_twice [of "map role as" "role y" "map role ys"]
      by (simp add: merge_step_roles acc r)
  next
    case False
    then show ?thesis by (auto simp: merge_step_roles)
  qed
  then show ?case using Cons.IH [OF d] by simp
qed

text \<open>
  Claim C7. Merging twice is merging once. The roles of the merged turns are the roles of
  the input with adjacent repetitions removed, so the role alone decides what is merged;
  the parts of the input are kept, all of them and in their order; and two adjacent model
  turns with the parts A and B become one turn with the parts A, B.
\<close>

theorem merge_messages_idempotent:
  "merge_messages (merge_messages msgs) = merge_messages msgs
   \<and> map role (merge_messages msgs) = remdups_adj (map role msgs)
   \<and> concat (map parts (merge_messages msgs)) = concat (map parts msgs)
   \<and> merge_messages [\<lparr>role = ''model'', parts = [TextPart ''A'']\<rparr>,
                        \<lparr>role = ''model'', parts = [TextPart ''B'']\<rparr>]
       = [\<lparr>role = ''model'', parts = [TextPart ''A'', TextPart ''B'']\<rparr>]"
proof -
  have "distinct_adj (map role (foldl merge_step [] msgs))"
    by (rule foldl_merge_distinct_adj) simp
  then have "foldl merge_step [] (foldl merge_step [] msgs) = foldl merge_step [] msgs"
    using foldl_merge_fixed [of "[]" "foldl merge_step [] msgs"] by simp
  moreover have "map role (foldl merge_step [] msgs) = remdups_adj (map role msgs)"
    using foldl_merge_roles [of "[]" msgs] by simp
  moreover have "concat (map parts (foldl merge_step [] msgs)) = concat (map parts msgs)"
    using foldl_merge_parts [of "[]" msgs] by simp
  ultimately show ?thesis
    by (simp add: merge_messages_def merge_step_def)
qed



section \<open>Properties of the converter\<close>

lemma role_map_known: "known_role r \<Longrightarrow> \<exists>r'. role_map r = Some r'"
  by (auto simp: known_role_def role_map_def)

lemma role_map_assistant: "role_map ''assistant'' = Some ''model''"
  by (simp add: role_map_def)

lemma role_map_system: "role_map ''system'' = Some ''system''"
  by (simp add: role_map_def)

lemma render_block_ok:
  "supported r b \<Longrightarrow> decodes loads b \<Longrightarrow> \<exists>p. render_block loads r b = Returned p"
  by (cases "(loads, b)" rule: decodes.cases) (auto split: pyval.splits)

lemma render_block_raise:
  "supported r b \<Longrightarrow> \<not> decodes loads b \<Longrightarrow> render_block loads r b = Raised JSONDecodeError"
  by (cases "(loads, b)" rule: decodes.cases) (auto split: pyval.splits)

lemma render_block_skip:
  "\<not> supported r b \<Longrightarrow> render_block loads r b = Skipped (UnsupportedBlock r)"
  by (cases "(r, b)" rule: supported.cases) auto

lemma render_parts_ok:
  "list_all (supported r) bs \<Longrightarrow> list_all (decodes loads) bs \<Longrightarrow>
   \<exists>qs. render_parts loads r bs ps = Returned (ps @ qs) \<and> length qs = length bs"
proof (induction bs arbitrary: ps)
  case Nil
  then show ?case by simp
next
  case (Cons b bs)
  then obtain p where p: "render_block loads r b = Returned p"
    using render_block_ok [of r b loads] by auto
  from Cons obtain qs where "render_parts loads r bs (ps @ [p]) = Returned ((ps @ [p]) @ qs)"
    and "length qs = length bs"
    by fastforce
  then show ?case using p by (intro exI [of _ "p # qs"]) simp
qed

lemma render_parts_raise:
  "list_all (supported r) bs \<Longrightarrow> \<not> list_all (decodes loads) bs \<Longrightarrow>
   render_parts loads r bs ps = Raised JSONDecodeError"
proof (induction bs arbitrary: ps)
  case Nil
  then show ?case by simp
next
  case (Cons b bs)
  show ?case
  proof (cases "decodes loads b")
    case True
    then obtain p where p: "render_block loads r b = Returned p"
      using render_block_ok [of r b loads] Cons.prems by auto
    with Cons True show ?thesis by simp
  next
    case False
    then show ?thesis using render_block_raise [of r b loads] Cons.prems by simp
  qed
qed

lemma render_output_block_ok:
  "supported_output b \<Longrightarrow> decodes loads b \<Longrightarrow> \<exists>p. render_output_block loads b = Returned p"
  by (cases "(loads, b)" rule: decodes.cases) (auto split: pyval.splits)

lemma render_output_block_raise:
  "supported_output b \<Longrightarrow> \<not> decodes loads b \<Longrightarrow>
   render_output_block loads b = Raised JSONDecodeError"
  by (cases "(loads, b)" rule: decodes.cases) (auto split: pyval.splits)

lemma render_output_block_skip:
  "\<not> supported_output b \<Longrightarrow> render_output_block loads b = Skipped UnsupportedOutputBlock"
  by (cases b) auto

lemma out_parts_ok:
  "list_all supported_output bs \<Longrightarrow> list_all (decodes loads) bs \<Longrightarrow>
   \<exists>qs. out_parts loads bs ps = Returned (ps @ qs) \<and> length qs = length bs"
proof (induction bs arbitrary: ps)
  case Nil
  then show ?case by simp
next
  case (Cons b bs)
  then obtain p where p: "render_output_block loads b = Returned p"
    using render_output_block_ok [of b loads] by auto
  from Cons obtain qs where "out_parts loads bs (ps @ [p]) = Returned ((ps @ [p]) @ qs)"
    and "length qs = length bs"
    by fastforce
  then show ?case using p by (intro exI [of _ "p # qs"]) simp
qed

lemma out_parts_raise:
  "list_all supported_output bs \<Longrightarrow> \<not> list_all (decodes loads) bs \<Longrightarrow>
   out_parts loads bs ps = Raised JSONDecodeError"
proof (induction bs arbitrary: ps)
  case Nil
  then show ?case by simp
next
  case (Cons b bs)
  show ?case
  proof (cases "decodes loads b")
    case True
    then obtain p where p: "render_output_block loads b = Returned p"
      using render_output_block_ok [of b loads] Cons.prems by auto
    with Cons True show ?thesis by simp
  next
    case False
    then show ?thesis using render_output_block_raise [of b loads] Cons.prems by simp
  qed
qed

lemma render_chat_message_ok:
  assumes "supported_message m" and "decodes_message loads m"
  shows "\<exists>t. render_chat_message loads (m_role m) (m_content m) = Returned t"
proof -
  from assms obtain qs where "render_parts loads (m_role m) (m_content m) [] = Returned qs"
    using render_parts_ok [of "m_role m" "m_content m" loads "[]"]
    by (auto simp: supported_message_def decodes_message_def)
  moreover from assms obtain r' where "role_map (m_role m) = Some r'"
    using role_map_known by (auto simp: supported_message_def)
  ultimately show ?thesis by (simp add: render_chat_message_def)
qed

lemma render_chat_message_raise:
  assumes "supported_message m" and "\<not> decodes_message loads m"
  shows "render_chat_message loads (m_role m) (m_content m) = Raised JSONDecodeError"
  using assms render_parts_raise [of "m_role m" "m_content m" loads "[]"]
  by (simp add: render_chat_message_def supported_message_def decodes_message_def)

lemma render_msgs_ok:
  "list_all supported_message ms \<Longrightarrow> list_all (decodes_message loads) ms \<Longrightarrow>
   \<exists>rs. render_msgs loads ms acc = Returned (acc @ rs) \<and> length rs = length ms"
proof (induction ms arbitrary: acc)
  case Nil
  then show ?case by simp
next
  case (Cons m ms)
  then obtain t where t: "render_chat_message loads (m_role m) (m_content m) = Returned t"
    using render_chat_message_ok [of m loads] by auto
  from Cons obtain rs where "render_msgs loads ms (acc @ [t]) = Returned ((acc @ [t]) @ rs)"
    and "length rs = length ms"
    by fastforce
  then show ?case using t by (intro exI [of _ "t # rs"]) simp
qed

lemma render_msgs_raise:
  "list_all supported_message ms \<Longrightarrow> \<not> list_all (decodes_message loads) ms \<Longrightarrow>
   render_msgs loads ms acc = Raised JSONDecodeError"
proof (induction ms arbitrary: acc)
  case Nil
  then show ?case by simp
next
  case (Cons m ms)
  show ?case
  proof (cases "decodes_message loads m")
    case True
    then obtain t where t: "render_chat_message loads (m_role m) (m_content m) = Returned t"
      using render_chat_message_ok [of m loads] Cons.prems by auto
    with Cons True show ?thesis by simp
  next
    case False
    then show ?thesis using render_chat_message_raise [of m loads] Cons.prems by simp
  qed
qed

lemma merge_messages_nonempty: "msgs \<noteq> [] \<Longrightarrow> merge_messages msgs \<noteq> []"
proof -
  assume "msgs \<noteq> []"
  then have "remdups_adj (map role msgs) \<noteq> []" by simp
  then have "map role (foldl merge_step [] msgs) \<noteq> []"
    using foldl_merge_roles [of "[]" msgs] by simp
  then show ?thesis by (auto simp: merge_messages_def)
qed

lemma system_instruction_returns: "\<exists>si. system_instruction infer = Returned si"
  by (simp add: system_instruction_def role_map_system split: option.splits)

text \<open>
  Claim C6. A record whose message roles are keys of the role map, whose blocks all have a
  branch for their role and whose argument strings all decode is converted: the call
  returns a payload, the list of turns handed to the merge has one turn for each message
  and one more, the last of them being the model turn built from the output, and the
  merged contents are not empty.
\<close>

theorem valid_inference_converts:
  assumes "supported_inference infer" and "decodes_inference loads infer"
  shows "\<exists>rs ops p.
           render_msgs loads (messages infer) [] = Returned rs
         \<and> out_parts loads (inf_output infer) [] = Returned ops
         \<and> rendered_msgs loads infer = Returned (rs @ [\<lparr>role = ''model'', parts = ops\<rparr>])
         \<and> length (rs @ [\<lparr>role = ''model'', parts = ops\<rparr>]) = length (messages infer) + 1
         \<and> inference_to_google loads infer = Returned p
         \<and> contents p = merge_messages (rs @ [\<lparr>role = ''model'', parts = ops\<rparr>])
         \<and> contents p \<noteq> []"
proof -
  from assms obtain rs where rs: "render_msgs loads (messages infer) [] = Returned rs"
    and len: "length rs = length (messages infer)"
    using render_msgs_ok [of "messages infer" loads "[]"]
    by (auto simp: supported_inference_def decodes_inference_def)
  from assms obtain ops where ops: "out_parts loads (inf_output infer) [] = Returned ops"
    using out_parts_ok [of "inf_output infer" loads "[]"]
    by (auto simp: supported_inference_def decodes_inference_def)
  let ?all = "rs @ [\<lparr>role = ''model'', parts = ops\<rparr>]"
  have r: "rendered_msgs loads infer = Returned ?all"
    by (simp add: rendered_msgs_def rs ops role_map_assistant)
  obtain si where si: "system_instruction infer = Returned si"
    using system_instruction_returns by blast
  let ?p = "\<lparr>contents = merge_messages ?all, systemInstruction = si,
             p_episode_id = episode_id infer\<rparr>"
  have "inference_to_google loads infer = Returned ?p"
    by (simp add: inference_to_google_def si r)
  moreover have "contents ?p \<noteq> []"
    using merge_messages_nonempty [of ?all] by simp
  ultimately show ?thesis using rs ops r len by (intro exI [of _ rs] exI [of _ ops] exI [of _ ?p]) simp
qed

lemma google_payloads_append:
  "google_payloads loads (xs @ ys) acc =
     (case google_payloads loads xs acc of
        Inl e \<Rightarrow> Inl e
      | Inr acc' \<Rightarrow> google_payloads loads ys acc')"
proof (induction xs arbitrary: acc)
  case Nil
  then show ?case by simp
next
  case (Cons x xs)
  obtain ps ws where acc: "acc = (ps, ws)" by (cases acc)
  show ?case
    unfolding acc using Cons.IH by (cases "inference_to_google loads x") simp_all
qed

text \<open>
  Claim C1, as the code has it. In a record with known roles and supported blocks only, an
  argument string that the decoder rejects makes \<^verbatim>\<open>inference_to_google\<close> raise
  \<^verbatim>\<open>JSONDecodeError\<close>; nothing catches it, so the loop over the batch ends with the
  exception whatever it has collected, and the remaining records are not converted: a
  batch with such a record anywhere in it ends with an exception.
\<close>

theorem parse_failure_raises:
  assumes "supported_inference infer" and "\<not> decodes_inference loads infer"
  shows "inference_to_google loads infer = Raised JSONDecodeError
       \<and> google_payloads loads (infer # infs) (ps, ws) = Inl JSONDecodeError
       \<and> (\<exists>e. google_payloads loads (pre @ infer # infs) (ps, ws) = Inl e)"
proof -
  have "rendered_msgs loads infer = Raised JSONDecodeError"
  proof (cases "list_all (decodes_message loads) (messages infer)")
    case True
    with assms obtain rs where "render_msgs loads (messages infer) [] = Returned rs"
      using render_msgs_ok [of "messages infer" loads "[]"]
      by (auto simp: supported_inference_def)
    moreover from True assms have "out_parts loads (inf_output infer) [] = Raised JSONDecodeError"
      using out_parts_raise [of "inf_output infer" loads "[]"]
      by (simp add: supported_inference_def decodes_inference_def)
    ultimately show ?thesis by (simp add: rendered_msgs_def)
  next
    case False
    with assms have "render_msgs loads (messages infer) [] = Raised JSONDecodeError"
      using render_msgs_raise [of "messages infer" loads "[]"]
      by (simp add: supported_inference_def)
    then show ?thesis by (simp add: rendered_msgs_def)
  qed
  moreover obtain si where "system_instruction infer = Returned si"
    using system_instruction_returns by blast
  ultimately have r: "inference_to_google loads infer = Raised JSONDecodeError"
    by (simp add: inference_to_google_def)
  then have "google_payloads loads (infer # infs) acc = Inl JSONDecodeError" for acc
    by (cases acc) simp
  then have "\<exists>e. google_payloads loads (pre @ infer # infs) (ps, ws) = Inl e"
    by (simp add: google_payloads_append split: sum.splits)
  with r show ?thesis by simp
qed

lemma role_map_unknown: "\<not> known_role r \<Longrightarrow> role_map r = None"
  by (simp add: known_role_def role_map_def)

lemma render_parts_first_unsupported:
  "\<not> list_all (supported r) bs \<Longrightarrow>
   render_parts loads r bs ps =
     (if list_all (decodes loads) (takeWhile (supported r) bs)
      then Skipped (UnsupportedBlock r) else Raised JSONDecodeError)"
proof (induction bs arbitrary: ps)
  case Nil
  then show ?case by simp
next
  case (Cons b bs)
  show ?case
  proof (cases "supported r b")
    case False
    then show ?thesis by (simp add: render_block_skip)
  next
    case True
    show ?thesis
    proof (cases "decodes loads b")
      case d: True
      then obtain p where "render_block loads r b = Returned p"
        using render_block_ok [OF True] by blast
      then show ?thesis using Cons True d by simp
    next
      case d: False
      then show ?thesis using render_block_raise [OF True] True by simp
    qed
  qed
qed

lemma out_parts_first_unsupported:
  "\<not> list_all supported_output bs \<Longrightarrow>
   out_parts loads bs ps =
     (if list_all (decodes loads) (takeWhile supported_output bs)
      then Skipped UnsupportedOutputBlock else Raised JSONDecodeError)"
proof (induction bs arbitrary: ps)
  case Nil
  then show ?case by simp
next
  case (Cons b bs)
  show ?case
  proof (cases "supported_output b")
    case False
    then show ?thesis by (simp add: render_output_block_skip)
  next
    case True
    show ?thesis
    proof (cases "decodes loads b")
      case d: True
      then obtain p where "render_output_block loads b = Returned p"
        using render_output_block_ok [OF True] by blast
      then show ?thesis using Cons True d by simp
    next
      case d: False
      then show ?thesis using render_output_block_raise [OF True] True by simp
    qed
  qed
qed

lemma render_chat_message_first_unsupported:
  assumes "\<not> blocks_supported m"
  shows "render_chat_message loads (m_role m) (m_content m) =
     (if list_all (decodes loads) (takeWhile (supported (m_role m)) (m_content m))
      then Skipped (UnsupportedBlock (m_role m)) else Raised JSONDecodeError)"
  using assms render_parts_first_unsupported [of "m_role m" "m_content m" loads "[]"]
  by (simp add: render_chat_message_def blocks_supported_def)

lemma render_chat_message_supported:
  assumes "blocks_supported m"
  shows "if known_role (m_role m) \<and> decodes_message loads m
         then \<exists>t. render_chat_message loads (m_role m) (m_content m) = Returned t
         else \<exists>e. render_chat_message loads (m_role m) (m_content m) = Raised e"
proof (cases "decodes_message loads m")
  case False
  then show ?thesis
    using assms render_parts_raise [of "m_role m" "m_content m" loads "[]"]
    by (simp add: render_chat_message_def blocks_supported_def decodes_message_def)
next
  case True
  then obtain qs where "render_parts loads (m_role m) (m_content m) [] = Returned qs"
    using assms render_parts_ok [of "m_role m" "m_content m" loads "[]"]
    by (auto simp: blocks_supported_def decodes_message_def)
  then show ?thesis
    using True role_map_known [of "m_role m"] role_map_unknown [of "m_role m"]
    by (auto simp: render_chat_message_def)
qed

lemma render_msgs_all_supported:
  "list_all blocks_supported ms \<Longrightarrow>
   (if list_all (\<lambda>m. known_role (m_role m) \<and> decodes_message loads m) ms
    then \<exists>rs. render_msgs loads ms acc = Returned rs
    else \<exists>e. render_msgs loads ms acc = Raised e)"
proof (induction ms arbitrary: acc)
  case Nil
  then show ?case by simp
next
  case (Cons m ms)
  then have m: "blocks_supported m" and ms: "list_all blocks_supported ms" by simp_all
  show ?case
  proof (cases "known_role (m_role m) \<and> decodes_message loads m")
    case True
    then obtain t where "render_chat_message loads (m_role m) (m_content m) = Returned t"
      using render_chat_message_supported [OF m, of loads] by auto
    then show ?thesis using Cons.IH [OF ms, of "acc @ [t]"] True by simp
  next
    case False
    then obtain e where "render_chat_message loads (m_role m) (m_content m) = Raised e"
      using render_chat_message_supported [OF m, of loads] by auto
    then show ?thesis using False by auto
  qed
qed

lemma render_msgs_first_unsupported:
  "\<not> list_all blocks_supported ms \<Longrightarrow>
   (if list_all (\<lambda>m. known_role (m_role m) \<and> decodes_message loads m)
         (takeWhile blocks_supported ms)
       \<and> (case dropWhile blocks_supported ms of
             m # ms' \<Rightarrow> list_all (decodes loads) (takeWhile (supported (m_role m)) (m_content m))
           | [] \<Rightarrow> X)
    then \<exists>w. render_msgs loads ms acc = Skipped w
    else \<exists>e. render_msgs loads ms acc = Raised e)"
proof (induction ms arbitrary: acc)
  case Nil
  then show ?case by simp
next
  case (Cons m ms)
  show ?case
  proof (cases "blocks_supported m")
    case False
    then show ?thesis
      using render_chat_message_first_unsupported [OF False, of loads] by simp
  next
    case True
    with Cons.prems have ms: "\<not> list_all blocks_supported ms" by simp
    show ?thesis
    proof (cases "known_role (m_role m) \<and> decodes_message loads m")
      case k: True
      then obtain t where "render_chat_message loads (m_role m) (m_content m) = Returned t"
        using render_chat_message_supported [OF True, of loads] by auto
      then show ?thesis using Cons.IH [OF ms, of "acc @ [t]"] True k by simp
    next
      case k: False
      then obtain e where "render_chat_message loads (m_role m) (m_content m) = Raised e"
        using render_chat_message_supported [OF True, of loads] by auto
      then show ?thesis using True k by auto
    qed
  qed
qed

lemma rendered_msgs_unsupported:
  assumes "has_unsupported infer"
  shows "if quiet_before loads infer
         then \<exists>w. rendered_msgs loads infer = Skipped w
         else \<exists>e. rendered_msgs loads infer = Raised e"
proof (cases "list_all blocks_supported (messages infer)")
  case False
  have q: "quiet_before loads infer \<longleftrightarrow>
      list_all (\<lambda>m. known_role (m_role m) \<and> decodes_message loads m)
         (takeWhile blocks_supported (messages infer))
       \<and> (case dropWhile blocks_supported (messages infer) of
             m # ms' \<Rightarrow> list_all (decodes loads) (takeWhile (supported (m_role m)) (m_content m))
           | [] \<Rightarrow> list_all (decodes loads) (takeWhile supported_output (inf_output infer)))"
    by (simp add: quiet_before_def)
  show ?thesis
    using render_msgs_first_unsupported [OF False, of loads
        "list_all (decodes loads) (takeWhile supported_output (inf_output infer))" "[]"]
    unfolding q [symmetric]
    by (auto simp: rendered_msgs_def split: if_splits)
next
  case True
  then have tw: "takeWhile blocks_supported (messages infer) = messages infer"
    and dw: "dropWhile blocks_supported (messages infer) = []"
    by (simp_all add: list_all_iff)
  from True assms have out: "\<not> list_all supported_output (inf_output infer)"
    by (auto simp: has_unsupported_def list_ex_iff list_all_iff blocks_supported_def)
  show ?thesis
  proof (cases "list_all (\<lambda>m. known_role (m_role m) \<and> decodes_message loads m) (messages infer)")
    case r: True
    then obtain rs where "render_msgs loads (messages infer) [] = Returned rs"
      using render_msgs_all_supported [OF True, of loads "[]"] by auto
    then show ?thesis
      using out_parts_first_unsupported [OF out, of loads "[]"] r
      by (simp add: rendered_msgs_def quiet_before_def tw dw)
  next
    case r: False
    then obtain e where "render_msgs loads (messages infer) [] = Raised e"
      using render_msgs_all_supported [OF True, of loads "[]"] by auto
    then show ?thesis
      using r by (simp add: rendered_msgs_def quiet_before_def tw dw)
  qed
qed

text \<open>
  Claim C4, as the code has it. A record with a block that has no branch for its role (or
  for the output) never yields a payload. When nothing raises before that block is reached,
  the call emits a warning and returns \<^verbatim>\<open>None\<close>, and the loop over the batch goes on
  with the next record, the payloads collected so far unchanged. Otherwise an argument
  string that does not decode, or a role that is not a key of the role map, comes first:
  the call raises and the loop over the batch ends with the exception.
\<close>

theorem unsupported_block_skips:
  assumes "has_unsupported infer"
  shows "inference_to_google loads infer \<noteq> Returned p
       \<and> (quiet_before loads infer \<longrightarrow>
            (\<exists>w. inference_to_google loads infer = Skipped w
               \<and> google_payloads loads (infer # infs) (ps, ws)
                   = google_payloads loads infs (ps, ws @ [w])))
       \<and> (\<not> quiet_before loads infer \<longrightarrow>
            (\<exists>e. inference_to_google loads infer = Raised e
               \<and> google_payloads loads (infer # infs) (ps, ws) = Inl e))"
proof -
  obtain si where si: "system_instruction infer = Returned si"
    using system_instruction_returns by blast
  show ?thesis
  proof (cases "quiet_before loads infer")
    case True
    then obtain w where "rendered_msgs loads infer = Skipped w"
      using rendered_msgs_unsupported [OF assms, of loads] by auto
    then have "inference_to_google loads infer = Skipped w"
      by (simp add: inference_to_google_def si)
    then show ?thesis using True by simp
  next
    case False
    then obtain e where "rendered_msgs loads infer = Raised e"
      using rendered_msgs_unsupported [OF assms, of loads] by auto
    then have "inference_to_google loads infer = Raised e"
      by (simp add: inference_to_google_def si)
    then show ?thesis using False by simp
  qed
qed

text \<open>
  Claim C8. When the decoder maps the argument string to a mapping (as \<^verbatim>\<open>json.loads\<close>
  maps \<^verbatim>\<open>{"x": 1}\<close>), the tool call with the string and the tool call with the mapping
  render to the same \<^verbatim>\<open>functionCall\<close> part, in a message of the assistant and in the
  output.
\<close>

theorem tool_call_arguments_normalized:
  assumes "loads s = Some (PDict kv)"
  shows "render_block loads ''assistant'' (ToolCall n (PStr s))
           = render_block loads ''assistant'' (ToolCall n (PDict kv))
       \<and> render_block loads ''assistant'' (ToolCall n (PStr s)) = Returned (FunctionCall n (PDict kv))
       \<and> render_output_block loads (ToolCall n (PStr s))
           = render_output_block loads (ToolCall n (PDict kv))
       \<and> render_output_block loads (ToolCall n (PStr s)) = Returned (FunctionCall n (PDict kv))
       \<and> render_chat_message loads ''assistant'' [ToolCall n (PStr s)]
           = render_chat_message loads ''assistant'' [ToolCall n (PDict kv)]"
  using assms by (simp add: render_chat_message_def)

theorem tool_call_arguments_normalized_witness:
  \<open>loads_example ''{"x": 1}'' = Some (PDict [(''x'', PInt 1)])
   \<and> render_block loads_example ''assistant'' (ToolCall ''f'' (PStr ''{"x": 1}''))
       = render_block loads_example ''assistant'' (ToolCall ''f'' (PDict [(''x'', PInt 1)]))
   \<and> render_block loads_example ''assistant'' (ToolCall ''f'' (PStr ''{"x": 1}''))
       = Returned (FunctionCall ''f'' (PDict [(''x'', PInt 1)]))\<close>
proof -
  have h: \<open>loads_example ''{"x": 1}'' = Some (PDict [(''x'', PInt 1)])\<close>
    by (simp add: loads_example_def)
  show ?thesis
    using h tool_call_arguments_normalized
      [of loads_example \<open>''{"x": 1}''\<close> "[(''x'', PInt 1)]" "''f''"]
    by simp
qed

lemma render_block_textual:
  "textual b \<Longrightarrow> render_block loads r b = Returned (TextPart (rendered_text b))"
  by (cases b) simp_all

lemma render_output_block_textual:
  "textual b \<Longrightarrow> supported_output b \<Longrightarrow>
   render_output_block loads b = Returned (TextPart (rendered_text b))"
  by (cases b) simp_all

lemma render_parts_textual:
  "list_all textual bs \<Longrightarrow>
   render_parts loads r bs ps = Returned (ps @ map (\<lambda>b. TextPart (rendered_text b)) bs)"
  by (induction bs arbitrary: ps) (simp_all add: render_block_textual)

lemma out_parts_textual:
  "list_all textual bs \<Longrightarrow> list_all supported_output bs \<Longrightarrow>
   out_parts loads bs ps = Returned (ps @ map (\<lambda>b. TextPart (rendered_text b)) bs)"
  by (induction bs arbitrary: ps) (simp_all add: render_output_block_textual)

lemma render_parts_length:
  "render_parts loads r bs ps = Returned qs \<Longrightarrow>
   \<exists>ys. qs = ps @ ys \<and> length ys = length bs"
proof (induction bs arbitrary: ps)
  case Nil
  then show ?case by simp
next
  case (Cons b bs)
  then obtain p where p: "render_block loads r b = Returned p"
    and rest: "render_parts loads r bs (ps @ [p]) = Returned qs"
    by (auto split: outcome.splits)
  from Cons.IH [OF rest] obtain ys where "qs = (ps @ [p]) @ ys" and "length ys = length bs"
    by blast
  then show ?case by (intro exI [of _ "p # ys"]) simp
qed

lemma render_parts_append:
  "render_parts loads r (xs @ ys) ps =
     (case render_parts loads r xs ps of
        Raised e \<Rightarrow> Raised e
      | Skipped w \<Rightarrow> Skipped w
      | Returned qs \<Rightarrow> render_parts loads r ys qs)"
  by (induction xs arbitrary: ps) (simp_all split: outcome.splits)

lemma render_parts_textual_at:
  assumes "textual b" and "render_parts loads r (pre @ b # post) ps = Returned qs"
  shows "qs ! (length ps + length pre) = TextPart (rendered_text b)
       \<and> length qs = length ps + length pre + 1 + length post"
proof -
  from assms(2) obtain q1 where q1: "render_parts loads r pre ps = Returned q1"
    and r2: "render_parts loads r (b # post) q1 = Returned qs"
    by (auto simp: render_parts_append split: outcome.splits)
  from render_parts_length [OF q1] obtain y1 where y1: "q1 = ps @ y1" "length y1 = length pre"
    by blast
  from r2 assms(1) have "render_parts loads r post (q1 @ [TextPart (rendered_text b)]) = Returned qs"
    by (simp add: render_block_textual)
  from render_parts_length [OF this] obtain y2 where
    y2: "qs = (q1 @ [TextPart (rendered_text b)]) @ y2" "length y2 = length post"
    by blast
  have "qs = (ps @ y1) @ TextPart (rendered_text b) # y2"
    using y1 y2 by simp
  then have "qs ! (length ps + length pre) = TextPart (rendered_text b)"
    using y1(2) by (metis length_append nth_append_length)
  then show ?thesis using y1 y2 by simp
qed

lemma render_chat_message_textual_at:
  assumes "textual b" and "render_chat_message loads r (pre @ b # post) = Returned t"
  shows "parts t ! length pre = TextPart (rendered_text b)
       \<and> length (parts t) = length pre + 1 + length post"
proof -
  from assms(2) obtain qs where "render_parts loads r (pre @ b # post) [] = Returned qs"
    and "parts t = qs"
    by (auto simp: render_chat_message_def split: outcome.splits option.splits)
  then show ?thesis
    using render_parts_textual_at [OF assms(1), of loads r pre post "[]" qs] by simp
qed

text \<open>
  Claim C9. A list of text, raw text and thought blocks, in a message of any role, is
  rendered block by block: text and raw text become text parts with the text itself and a
  thought becomes a text part with the text between \<^verbatim>\<open><think>\<close> and \<^verbatim>\<open></think>\<close>;
  the same holds for the text and thought blocks of the output. In any message that is
  rendered, whatever its other blocks are, the part at the position of such a block is
  that text part. The record with the system prompt "Be concise", the user
  message "Hi" and the output "Hello" converts to a user turn, a model turn and the system
  instruction.
\<close>

theorem block_rendering:
  assumes "list_all textual bs"
  shows "render_parts loads r bs ps = Returned (ps @ map (\<lambda>b. TextPart (rendered_text b)) bs)
   \<and> (role_map r = Some r' \<longrightarrow>
        render_chat_message loads r bs
          = Returned \<lparr>role = r', parts = map (\<lambda>b. TextPart (rendered_text b)) bs\<rparr>)
   \<and> (list_all supported_output bs \<longrightarrow>
        out_parts loads bs ps = Returned (ps @ map (\<lambda>b. TextPart (rendered_text b)) bs))
   \<and> (textual blk \<and> render_chat_message loads r (pre @ blk # post) = Returned rendered \<longrightarrow>
        parts rendered ! length pre = TextPart (rendered_text blk)
        \<and> length (parts rendered) = length pre + 1 + length post)
   \<and> rendered_text (Text t) = t \<and> rendered_text (RawText t) = t
   \<and> rendered_text (Thought t) = ''<think>'' @ t @ ''</think>''
   \<and> inference_to_google loads
        \<lparr>episode_id = e, system = Some ''Be concise'',
         messages = [\<lparr>m_role = ''user'', m_content = [Text ''Hi'']\<rparr>],
         inf_output = [Text ''Hello'']\<rparr>
     = Returned \<lparr>contents = [\<lparr>role = ''user'', parts = [TextPart ''Hi'']\<rparr>,
                             \<lparr>role = ''model'', parts = [TextPart ''Hello'']\<rparr>],
                 systemInstruction = Some \<lparr>role = ''system'', parts = [TextPart ''Be concise'']\<rparr>,
                 p_episode_id = e\<rparr>"
proof -
  have a: "render_parts loads r bs qs = Returned (qs @ map (\<lambda>b. TextPart (rendered_text b)) bs)"
    for qs
    using assms by (rule render_parts_textual)
  have b: "render_chat_message loads r bs
          = Returned \<lparr>role = r', parts = map (\<lambda>b. TextPart (rendered_text b)) bs\<rparr>"
    if "role_map r = Some r'"
    using that a [of "[]"] by (simp add: render_chat_message_def)
  have c: "out_parts loads bs ps = Returned (ps @ map (\<lambda>b. TextPart (rendered_text b)) bs)"
    if "list_all supported_output bs"
    using assms that by (rule out_parts_textual)
  have d: "inference_to_google loads
        \<lparr>episode_id = e, system = Some ''Be concise'',
         messages = [\<lparr>m_role = ''user'', m_content = [Text ''Hi'']\<rparr>],
         inf_output = [Text ''Hello'']\<rparr>
     = Returned \<lparr>contents = [\<lparr>role = ''user'', parts = [TextPart ''Hi'']\<rparr>,
                             \<lparr>role = ''model'', parts = [TextPart ''Hello'']\<rparr>],
                 systemInstruction = Some \<lparr>role = ''system'', parts = [TextPart ''Be concise'']\<rparr>,
                 p_episode_id = e\<rparr>"
    by (simp add: render_chat_message_def role_map_def inference_to_google_def
        system_instruction_def rendered_msgs_def merge_messages_def merge_step_def)
  have f: "parts rendered ! length pre = TextPart (rendered_text blk)
        \<and> length (parts rendered) = length pre + 1 + length post"
    if "textual blk" and "render_chat_message loads r (pre @ blk # post) = Returned rendered"
    using that by (rule render_chat_message_textual_at)
  show ?thesis using a b c d f by simp
qed

theorem block_rendering_witness:
  "list_all textual [Thought ''a'', Text ''b'', RawText ''c'', Text ''d'']
   \<and> role_map ''system'' = Some ''system''
   \<and> render_chat_message loads_example ''system''
        [Thought ''a'', Text ''b'', RawText ''c'', Text ''d'']
       = Returned \<lparr>role = ''system'',
                   parts = [TextPart ''<think>a</think>'', TextPart ''b'', TextPart ''c'',
                            TextPart ''d'']\<rparr>
   \<and> list_all supported_output [Thought ''a'', Text ''b'', Text ''d'', Thought ''e'']
   \<and> out_parts loads_example [Thought ''a'', Text ''b'', Text ''d'', Thought ''e''] []
       = Returned [TextPart ''<think>a</think>'', TextPart ''b'', TextPart ''d'',
                   TextPart ''<think>e</think>'']
   \<and> render_chat_message loads_example ''assistant''
         ([ToolCall ''f'' (PDict [])] @ Thought ''a'' # [ToolCall ''g'' PNone])
       = Returned \<lparr>role = ''model'',
                   parts = [FunctionCall ''f'' (PDict []), TextPart ''<think>a</think>'',
                            FunctionCall ''g'' PNone]\<rparr>
   \<and> parts \<lparr>role = ''model'',
              parts = [FunctionCall ''f'' (PDict []), TextPart ''<think>a</think>'',
                       FunctionCall ''g'' PNone]\<rparr> ! length [ToolCall ''f'' (PDict [])]
       = TextPart (rendered_text (Thought ''a''))"
proof -
  have h: "list_all textual [Thought ''a'', Text ''b'', RawText ''c'', Text ''d'']" by simp
  have g: "list_all textual [Thought ''a'', Text ''b'', Text ''d'', Thought ''e'']" by simp
  have k: "role_map ''system'' = Some ''system''" by (simp add: role_map_def)
  have o: "list_all supported_output [Thought ''a'', Text ''b'', Text ''d'', Thought ''e'']" by simp
  have m: "render_chat_message loads_example ''assistant''
         ([ToolCall ''f'' (PDict [])] @ Thought ''a'' # [ToolCall ''g'' PNone])
       = Returned \<lparr>role = ''model'',
                   parts = [FunctionCall ''f'' (PDict []), TextPart ''<think>a</think>'',
                            FunctionCall ''g'' PNone]\<rparr>"
    by (simp add: render_chat_message_def role_map_def)
  show ?thesis
    using h k o m
      block_rendering [OF h, where loads = loads_example and r = "''system''"
        and r' = "''system''" and ps = "[]" and e = "None :: nat option" and t = "[]"
        and blk = "Text []" and pre = "[]" and post = "[]" and rendered = "\<lparr>role = [], parts = []\<rparr>"]
      block_rendering [OF g, where loads = loads_example and r = "''assistant''"
        and r' = "''model''" and ps = "[]" and e = "None :: nat option" and t = "[]"
        and blk = "Thought ''a''" and pre = "[ToolCall ''f'' (PDict [])]"
        and post = "[ToolCall ''g'' PNone]"
        and rendered = "\<lparr>role = ''model'',
                   parts = [FunctionCall ''f'' (PDict []), TextPart ''<think>a</think>'',
                            FunctionCall ''g'' PNone]\<rparr>"]
    by simp
qed


lemmas eval_defs =
  inference_to_google_def system_instruction_def rendered_msgs_def render_chat_message_def
  role_map_def merge_messages_def merge_step_def loads_example_def

theorem valid_inference_converts_witness:
  "supported_inference tool_round_trip \<and> decodes_inference loads_example tool_round_trip
   \<and> (\<exists>rs ops p.
           render_msgs loads_example (messages tool_round_trip) [] = Returned rs
         \<and> out_parts loads_example (inf_output tool_round_trip) [] = Returned ops
         \<and> rendered_msgs loads_example tool_round_trip = Returned (rs @ [\<lparr>role = ''model'', parts = ops\<rparr>])
         \<and> length (rs @ [\<lparr>role = ''model'', parts = ops\<rparr>]) = length (messages tool_round_trip) + 1
         \<and> inference_to_google loads_example tool_round_trip = Returned p
         \<and> contents p = merge_messages (rs @ [\<lparr>role = ''model'', parts = ops\<rparr>])
         \<and> contents p \<noteq> [])
   \<and> rendered_msgs loads_example tool_round_trip
       = Returned [\<lparr>role = ''user'', parts = [TextPart ''What is x?'']\<rparr>,
                   \<lparr>role = ''model'', parts = [TextPart ''<think>look it up</think>'',
                                                FunctionCall ''get'' (PDict [(''x'', PInt 1)])]\<rparr>,
                   \<lparr>role = ''user'',
                    parts = [FunctionResponse ''get'' (PDict [(''result'', PStr ''one'')])]\<rparr>,
                   \<lparr>role = ''model'', parts = [TextPart ''x is one'']\<rparr>]"
proof -
  have s: "supported_inference tool_round_trip"
    by (simp add: supported_inference_def supported_message_def known_role_def tool_round_trip_def)
  have d: "decodes_inference loads_example tool_round_trip"
    by (simp add: decodes_inference_def decodes_message_def tool_round_trip_def loads_example_def)
  have e: "rendered_msgs loads_example tool_round_trip
       = Returned [\<lparr>role = ''user'', parts = [TextPart ''What is x?'']\<rparr>,
                   \<lparr>role = ''model'', parts = [TextPart ''<think>look it up</think>'',
                                                FunctionCall ''get'' (PDict [(''x'', PInt 1)])]\<rparr>,
                   \<lparr>role = ''user'',
                    parts = [FunctionResponse ''get'' (PDict [(''result'', PStr ''one'')])]\<rparr>,
                   \<lparr>role = ''model'', parts = [TextPart ''x is one'']\<rparr>]"
    by (simp add: eval_defs tool_round_trip_def)
  show ?thesis
    using s d e valid_inference_converts [OF s d] by blast
qed

theorem parse_failure_raises_witness:
  "supported_inference bad_call \<and> \<not> decodes_inference loads_example bad_call
   \<and> inference_to_google loads_example bad_call = Raised JSONDecodeError
   \<and> google_payloads loads_example (bad_call # [hello]) ([], []) = Inl JSONDecodeError"
proof -
  have s: "supported_inference bad_call"
    by (simp add: supported_inference_def supported_message_def known_role_def bad_call_def)
  have d: "\<not> decodes_inference loads_example bad_call"
    by (simp add: decodes_inference_def decodes_message_def bad_call_def loads_example_def)
  show ?thesis
    using s d parse_failure_raises [OF s d, of "[hello]" "[]" "[]" "[]"] by simp
qed

text \<open>The batch of a record with the argument string \<^verbatim>\<open>{bad\<close> and a record that
  converts alone: the exception ends the loop, and there is no list of payloads.\<close>

theorem parse_failure_dropped_counterexample:
  "loads_example ''{bad'' = None
   \<and> messages bad_call = [\<lparr>m_role = ''assistant'', m_content = [ToolCall ''f'' (PStr ''{bad'')]\<rparr>]
   \<and> google_payloads loads_example [hello] ([], [])
       = Inr ([\<lparr>contents = [\<lparr>role = ''user'', parts = [TextPart ''Hi'']\<rparr>,
                             \<lparr>role = ''model'', parts = [TextPart ''Hello'']\<rparr>],
                 systemInstruction = Some \<lparr>role = ''system'', parts = [TextPart ''Be concise'']\<rparr>,
                 p_episode_id = Some 2\<rparr>], [])
   \<and> google_payloads loads_example [bad_call, hello] ([], []) = Inl JSONDecodeError"
  by (simp add: eval_defs bad_call_def hello_def)

theorem unsupported_block_skips_witness:
  "has_unsupported tool_call_on_user \<and> quiet_before loads_example tool_call_on_user
   \<and> inference_to_google loads_example tool_call_on_user = Skipped (UnsupportedBlock ''user'')
   \<and> google_payloads loads_example (tool_call_on_user # [hello]) ([], [])
       = google_payloads loads_example [hello] ([], [] @ [UnsupportedBlock ''user''])
   \<and> has_unsupported unknown_role_then_result
   \<and> \<not> quiet_before loads_example unknown_role_then_result
   \<and> inference_to_google loads_example unknown_role_then_result = Raised KeyError
   \<and> google_payloads loads_example (unknown_role_then_result # [hello]) ([], []) = Inl KeyError"
proof -
  have u: "has_unsupported tool_call_on_user"
    by (simp add: has_unsupported_def tool_call_on_user_def)
  have q: "quiet_before loads_example tool_call_on_user"
    by (simp add: quiet_before_def blocks_supported_def tool_call_on_user_def)
  have e: "inference_to_google loads_example tool_call_on_user = Skipped (UnsupportedBlock ''user'')"
    by (simp add: eval_defs tool_call_on_user_def)
  have u2: "has_unsupported unknown_role_then_result"
    by (simp add: has_unsupported_def unknown_role_then_result_def)
  have q2: "\<not> quiet_before loads_example unknown_role_then_result"
    by (simp add: quiet_before_def blocks_supported_def known_role_def
        unknown_role_then_result_def)
  have e2: "inference_to_google loads_example unknown_role_then_result = Raised KeyError"
    by (simp add: eval_defs unknown_role_then_result_def)
  show ?thesis
    using u q e u2 q2 e2
      unsupported_block_skips [OF u, where loads = loads_example and infs = "[hello]"
        and ps = "[]" and ws = "[]"]
      unsupported_block_skips [OF u2, where loads = loads_example and infs = "[hello]"
        and ps = "[]" and ws = "[]"]
    by auto
qed

text \<open>A tool result on an assistant message, after a tool call whose argument string
  is rejected: the exception comes first.\<close>

theorem unsupported_block_skipped_counterexample:
  "has_unsupported bad_call_then_result
   \<and> inference_to_google loads_example bad_call_then_result = Raised JSONDecodeError
   \<and> google_payloads loads_example [bad_call_then_result, hello] ([], []) = Inl JSONDecodeError"
  by (simp add: eval_defs has_unsupported_def bad_call_then_result_def hello_def)


section \<open>Properties of the split\<close>

lemma set_unique_from: "set (unique_from seen xs) = set seen \<union> set xs"
  by (induction xs arbitrary: seen) auto

lemma distinct_unique_from: "distinct seen \<Longrightarrow> distinct (unique_from seen xs)"
  by (induction xs arbitrary: seen) auto

lemma set_unique: "set (unique xs) = set xs"
  by (simp add: unique_def set_unique_from)

lemma distinct_unique: "distinct (unique xs)"
  by (simp add: unique_def distinct_unique_from)



lemma slices_append: "slice_to k xs @ slice_from k xs = xs"
  by (simp add: slice_to_def slice_from_def)

lemma slices_disjoint: "distinct xs \<Longrightarrow> set (slice_to k xs) \<inter> set (slice_from k xs) = {}"
  by (simp add: slice_to_def slice_from_def set_take_disj_set_drop_if_distinct)

lemma split_rows_partition:
  assumes "mset u = mset (unique (map p_episode_id df))"
    and "split_rows k u df = (train, val)"
  shows "mset train + mset val = mset df
       \<and> p_episode_id ` set train \<inter> p_episode_id ` set val = {}
       \<and> (\<forall>p \<in> set df. (p \<in> set train) \<noteq> (p \<in> set val))"
proof -
  from assms(2) have
    train: "train = filter (\<lambda>p. p_episode_id p \<in> set (slice_to k u)) df" and
    val: "val = filter (\<lambda>p. p_episode_id p \<in> set (slice_from k u)) df"
    by (simp_all add: split_rows_def Let_def)
  have su: "set u = p_episode_id ` set df"
    using mset_eq_setD [OF assms(1)] by (simp add: set_unique)
  have du: "distinct u"
    using mset_eq_imp_distinct_iff [OF assms(1)] by (simp add: distinct_unique)
  have cover: "set (slice_to k u) \<union> set (slice_from k u) = p_episode_id ` set df"
    using slices_append [of k u] su by (metis set_append)
  have disj: "set (slice_to k u) \<inter> set (slice_from k u) = {}"
    using du by (rule slices_disjoint)
  have compl: "p_episode_id p \<in> set (slice_from k u) \<longleftrightarrow> p_episode_id p \<notin> set (slice_to k u)"
    if "p \<in> set df" for p
    using that cover disj by blast
  have val': "val = filter (\<lambda>p. p_episode_id p \<notin> set (slice_to k u)) df"
    unfolding val using compl by (intro filter_cong) auto
  have "mset train + mset val = mset df"
    unfolding train val' by (simp add: mset_filter)
  moreover have "p_episode_id ` set train \<inter> p_episode_id ` set val = {}"
    unfolding train val using disj by auto
  moreover have "\<forall>p \<in> set df. (p \<in> set train) \<noteq> (p \<in> set val)"
    unfolding train val' by auto
  ultimately show ?thesis by blast
qed

lemma train_val_split_Inr:
  assumes "train_val_split shuffle split_index_of df = Inr (train, val)"
  shows "\<exists>k. split_rows k (shuffle (unique (map p_episode_id df))) df = (train, val)"
  using assms
  by (auto simp: train_val_split_def episode_id_column_def Let_def split: if_splits)

text \<open>
  Claim C5. Whatever permutation the shuffle produces and whatever the index is, the two
  splits together are the rows of the DataFrame, each row in exactly one of them, and no
  episode id occurs in both.
\<close>

theorem split_keeps_episodes_together:
  assumes "train_val_split shuffle split_index_of df = Inr (train, val)"
    and "mset (shuffle (unique (map p_episode_id df))) = mset (unique (map p_episode_id df))"
  shows "mset train + mset val = mset df
       \<and> p_episode_id ` set train \<inter> p_episode_id ` set val = {}
       \<and> (\<forall>p \<in> set df. (p \<in> set train) \<noteq> (p \<in> set val))"
proof -
  from assms(1) obtain k where
    "split_rows k (shuffle (unique (map p_episode_id df))) df = (train, val)"
    using train_val_split_Inr by blast
  with assms(2) show ?thesis by (rule split_rows_partition)
qed



lemmas split_defs =
  train_val_split_def split_rows_def episode_id_column_def unique_def slice_to_def slice_from_def
  slice_index_def split_index_half_def row_def



theorem split_keeps_episodes_together_witness:
  "train_val_split rev split_index_half [row 1 ''a'', row 2 ''b'', row 1 ''c'']
     = Inr ([row 2 ''b''], [row 1 ''a'', row 1 ''c''])
   \<and> mset (rev (unique (map p_episode_id [row 1 ''a'', row 2 ''b'', row 1 ''c''])))
       = mset (unique (map p_episode_id [row 1 ''a'', row 2 ''b'', row 1 ''c'']))
   \<and> p_episode_id ` set [row 2 ''b''] \<inter> p_episode_id ` set [row 1 ''a'', row 1 ''c''] = {}"
proof -
  have a: "train_val_split rev split_index_half [row 1 ''a'', row 2 ''b'', row 1 ''c'']
     = Inr ([row 2 ''b''], [row 1 ''a'', row 1 ''c''])"
    by (simp add: split_defs)
  have b: "mset (rev (unique (map p_episode_id [row 1 ''a'', row 2 ''b'', row 1 ''c''])))
       = mset (unique (map p_episode_id [row 1 ''a'', row 2 ''b'', row 1 ''c'']))"
    by simp
  show ?thesis
    using a b split_keeps_episodes_together [OF a b] by blast
qed

section \<open>Properties of the upload\<close>

text \<open>
  Claim C3, on the code. \<^verbatim>\<open>upload_dataset_to_gcp\<close> never returns a string: a call that
  raises nothing returns \<^verbatim>\<open>None\<close>, and with a client whose upload raises, the call
  raises. On the store in memory, a new name is uploaded (and
  the bucket created if it is missing), an existing name fails with the precondition of
  the upload, and a failure in transit is passed on; the store is written once at most.
\<close>

theorem upload_dataset_to_gcp_returns_None:
  "upload_dataset_to_gcp gcp_client dump df dataset_name s \<noteq> Inr (Some uri, s')
   \<and> upload_dataset_to_gcp (gcp_client\<lparr>upload_from_filename := (\<lambda>name f s. Inl e)\<rparr>)
         dump df dataset_name s \<noteq> Inr res
   \<and> upload_dataset_to_gcp memory_client dump df ''train.jsonl'' \<lparr>has_bucket = b, blobs = []\<rparr>
       = Inr (None, \<lparr>has_bucket = True,
                     blobs = [(''train.jsonl'',
                               concat (map (\<lambda>p. dump (google_messages p) @ [CHR 0x0A]) df))]\<rparr>)
   \<and> upload_dataset_to_gcp memory_client dump df ''train.jsonl''
         \<lparr>has_bucket = True, blobs = [(''train.jsonl'', old)]\<rparr>
       = Inl PreconditionFailed
   \<and> upload_dataset_to_gcp failing_client dump df ''train.jsonl'' \<lparr>has_bucket = True, blobs = []\<rparr>
       = Inl TransportError"
  by (auto simp: upload_dataset_to_gcp_def memory_client_def failing_client_def Let_def
      split: sum.splits)

section \<open>The merge does not write its input\<close>

lemma get_parts_spec:
  assumes "wf_msg h0 msg" and "length h0 \<le> length h" and "take (length h0) h = h0"
  shows "\<exists>ps h1. get_parts msg h = Some (ps, h1) \<and> ps < length h1
          \<and> h1 ! ps = parts (read_msg h0 msg)
          \<and> length h \<le> length h1 \<and> take (length h) h1 = h"
proof (cases "o_parts msg")
  case None
  then show ?thesis by (simp add: get_parts_def alloc_def read_msg_def)
next
  case (Some a)
  with assms(1) have a: "a < length h0" by (simp add: wf_msg_def)
  have "h ! a = take (length h0) h ! a" using a by simp
  then have "h ! a = h0 ! a" using assms(3) by simp
  then show ?thesis using Some a assms(2) by (simp add: get_parts_def read_msg_def)
qed

lemma read_turn_extended:
  assumes "list_all (\<lambda>t. t_parts t < length h) ts" and "take (length h) h1 = h"
  shows "map (read_turn h1) ts = map (read_turn h) ts"
proof -
  have "h1 ! a = h ! a" if "a < length h" for a
  proof -
    have "take (length h) h1 ! a = h1 ! a" using that by simp
    then show ?thesis using assms(2) by simp
  qed
  then show ?thesis using assms(1) by (auto simp: read_turn_def list_all_iff)
qed

lemma fresh_lists_extended:
  assumes "fresh_lists h0 merged h" and "length h \<le> length h1" and "take (length h) h1 = h"
  shows "fresh_lists h0 merged h1"
proof -
  have "take (length h0) h1 = take (length h0) (take (length h) h1)"
    using assms(1) by (simp add: fresh_lists_def min_def)
  then have "take (length h0) h1 = h0"
    using assms by (simp add: fresh_lists_def)
  then show ?thesis
    using assms by (auto simp: fresh_lists_def list_all_iff)
qed

lemma merge_loop_step:
  assumes inv: "fresh_lists h0 merged h" and wf: "wf_msg h0 msg"
  shows "\<exists>merged1 h1.
           (\<forall>msgs. merge_loop (msg # msgs) merged h = merge_loop msgs merged1 h1)
         \<and> fresh_lists h0 merged1 h1
         \<and> map (read_turn h1) merged1 = merge_step (map (read_turn h) merged) (read_msg h0 msg)"
proof -
  from inv have "length h0 \<le> length h" and "take (length h0) h = h0"
    by (simp_all add: fresh_lists_def)
  with wf obtain ps h' where gp: "get_parts msg h = Some (ps, h')" and ps: "ps < length h'"
    and rd: "h' ! ps = parts (read_msg h0 msg)"
    and len: "length h \<le> length h'" and tk: "take (length h) h' = h"
    using get_parts_spec by blast
  have inv': "fresh_lists h0 merged h'"
    using inv len tk by (rule fresh_lists_extended)
  have "list_all (\<lambda>t. t_parts t < length h) merged"
    using inv by (simp add: fresh_lists_def list_all_iff)
  then have reads: "map (read_turn h') merged = map (read_turn h) merged"
    using tk by (rule read_turn_extended)
  show ?thesis
  proof (cases "merged \<noteq> [] \<and> t_role (last merged) = o_role msg")
    case True
    then obtain ms t where m: "merged = ms @ [t]" and r: "t_role t = o_role msg"
      by (cases merged rule: rev_cases) auto
    let ?b = "t_parts t"
    let ?h2 = "h'[?b := h' ! ?b @ h' ! ps]"
    from inv' m have b: "length h0 \<le> ?b" "?b < length h'"
      and others: "\<forall>s \<in> set ms. t_parts s \<noteq> ?b"
      by (auto simp: fresh_lists_def image_iff)
    have ext: "extend h' ?b ps = Some ?h2"
      using b ps by (simp add: extend_def)
    have step: "merge_loop (msg # msgs) merged h = merge_loop msgs merged ?h2" for msgs
      using True gp ext m by simp
    have inv2: "fresh_lists h0 merged ?h2"
      using inv' b by (simp add: fresh_lists_def)
    have "map (read_turn ?h2) ms = map (read_turn h') ms"
      using others b by (auto simp: read_turn_def nth_list_update)
    moreover have "read_turn ?h2 t = (read_turn h' t)\<lparr>parts := parts (read_turn h' t) @ h' ! ps\<rparr>"
      using b by (simp add: read_turn_def)
    ultimately have "map (read_turn ?h2) merged
        = merge_step (map (read_turn h') merged) (read_msg h0 msg)"
      using r by (simp add: m merge_step_def rd read_turn_def read_msg_def)
    then show ?thesis using step inv2 reads by metis
  next
    case False
    let ?t = "\<lparr>t_role = o_role msg, t_parts = length h'\<rparr>"
    let ?h2 = "h' @ [h' ! ps]"
    have cp: "list_copy h' ps = Some (length h', ?h2)"
      using ps by (simp add: list_copy_def alloc_def)
    have step: "merge_loop (msg # msgs) merged h = merge_loop msgs (merged @ [?t]) ?h2" for msgs
      using False gp cp by auto
    have inv2: "fresh_lists h0 (merged @ [?t]) ?h2"
      using inv' by (auto simp: fresh_lists_def list_all_iff)
    have "list_all (\<lambda>t. t_parts t < length h') merged"
      using inv' by (simp add: fresh_lists_def list_all_iff)
    then have "map (read_turn ?h2) merged = map (read_turn h') merged"
      by (intro read_turn_extended) simp_all
    moreover have "read_turn ?h2 ?t = read_msg h0 msg"
    proof -
      have "read_turn ?h2 ?t = \<lparr>role = o_role msg, parts = h' ! ps\<rparr>"
        by (simp add: read_turn_def)
      also have "\<dots> = read_msg h0 msg"
        unfolding rd by (simp add: read_msg_def)
      finally show ?thesis .
    qed
    moreover have "map (read_turn h') merged = [] 
                     \<or> role (last (map (read_turn h') merged)) \<noteq> role (read_msg h0 msg)"
      using False by (auto simp: last_map read_turn_def read_msg_def)
    then have "merge_step (map (read_turn h') merged) (read_msg h0 msg)
                 = map (read_turn h') merged @ [read_msg h0 msg]"
      by (rule merge_step_snoc)
    ultimately have "map (read_turn ?h2) (merged @ [?t])
        = merge_step (map (read_turn h') merged) (read_msg h0 msg)"
      by simp
    then show ?thesis using step inv2 reads by metis
  qed
qed

lemma merge_loop_inv:
  assumes "fresh_lists h0 merged h" and "wf_msgs h0 msgs"
  shows "\<exists>merged' h'. merge_loop msgs merged h = Some (merged', h')
          \<and> fresh_lists h0 merged' h'
          \<and> map (read_turn h') merged'
              = foldl merge_step (map (read_turn h) merged) (map (read_msg h0) msgs)"
  using assms
proof (induction msgs arbitrary: merged h)
  case Nil
  then show ?case by simp
next
  case (Cons msg msgs)
  from Cons.prems(2) have wf: "wf_msg h0 msg" and wfs: "wf_msgs h0 msgs"
    by (simp_all add: wf_msgs_def)
  from merge_loop_step [OF Cons.prems(1) wf] obtain merged1 h1 where
    step: "merge_loop (msg # msgs) merged h = merge_loop msgs merged1 h1"
    and inv1: "fresh_lists h0 merged1 h1"
    and rd: "map (read_turn h1) merged1 = merge_step (map (read_turn h) merged) (read_msg h0 msg)"
    by blast
  from Cons.IH [OF inv1 wfs] show ?case using step rd by simp
qed

text \<open>
  Claim C10. For a list of messages whose lists of parts are in the store, the call
  returns, every list that was in the store is unchanged, so that every input message
  reads as before; the lists of the merged turns are new objects, pairwise different; and
  the merged turns read as the result of the function on values.
\<close>

theorem merge_messages_keeps_input:
  assumes "wf_msgs h msgs"
  shows "\<exists>merged h'. merge_messages_store msgs h = Some (merged, h')
          \<and> take (length h) h' = h
          \<and> map (read_msg h') msgs = map (read_msg h) msgs
          \<and> list_all (\<lambda>t. length h \<le> t_parts t \<and> t_parts t < length h') merged
          \<and> distinct (map t_parts merged)
          \<and> map (read_turn h') merged = merge_messages (map (read_msg h) msgs)"
proof -
  have "fresh_lists h [] h" by (simp add: fresh_lists_def)
  from merge_loop_inv [OF this assms] obtain merged h' where
    r: "merge_loop msgs [] h = Some (merged, h')" and f: "fresh_lists h merged h'"
    and m: "map (read_turn h') merged = foldl merge_step [] (map (read_msg h) msgs)"
    by auto
  have "h' ! a = h ! a" if "a < length h" for a
  proof -
    have "take (length h) h' ! a = h' ! a" using that by simp
    then show ?thesis using f by (simp add: fresh_lists_def)
  qed
  then have "map (read_msg h') msgs = map (read_msg h) msgs"
    using assms by (auto simp: wf_msgs_def wf_msg_def list_all_iff read_msg_def split: option.splits)
  then show ?thesis
    using r f m by (simp add: merge_messages_store_def merge_messages_def fresh_lists_def)
qed

theorem merge_messages_keeps_input_witness:
  "wf_msgs example_store example_msgs
   \<and> merge_messages_store example_msgs example_store
       = Some ([\<lparr>t_role = ''model'', t_parts = 3\<rparr>, \<lparr>t_role = ''user'', t_parts = 4\<rparr>,
                \<lparr>t_role = ''model'', t_parts = 6\<rparr>],
               [[TextPart ''A''], [TextPart ''B''], [TextPart ''C''],
                [TextPart ''A'', TextPart ''B''], [TextPart ''C''], [], [TextPart ''A'']])
   \<and> (\<exists>merged h'. merge_messages_store example_msgs example_store = Some (merged, h')
          \<and> take (length example_store) h' = example_store
          \<and> map (read_turn h') merged = merge_messages (map (read_msg example_store) example_msgs))"
proof -
  have w: "wf_msgs example_store example_msgs"
    by (simp add: wf_msgs_def wf_msg_def example_store_def example_msgs_def)
  have e: "merge_messages_store example_msgs example_store
       = Some ([\<lparr>t_role = ''model'', t_parts = 3\<rparr>, \<lparr>t_role = ''user'', t_parts = 4\<rparr>,
                \<lparr>t_role = ''model'', t_parts = 6\<rparr>],
               [[TextPart ''A''], [TextPart ''B''], [TextPart ''C''],
                [TextPart ''A'', TextPart ''B''], [TextPart ''C''], [], [TextPart ''A'']])"
    by (simp add: merge_messages_store_def example_store_def example_msgs_def get_parts_def
        extend_def list_copy_def alloc_def)
  show ?thesis
    using w e merge_messages_keeps_input [OF w] by blast
qed

end
